theory Spec2Isabelle
  imports
    Main
    "HOL-Library.Word"
    "HOL-Library.List_Lexorder"
    "HOL-Library.Multiset"
begin

section \<open>Page 1: the post pipeline (page1.js)\<close>

subsection \<open>Data\<close>

text \<open>
  A JavaScript string is a sequence of UTF-16 code units, and \<^verbatim>\<open><\<close> on two strings
  compares them code unit by code unit, a proper prefix being the smaller one. That is
  the lexicographic order of lists over the unsigned order of 16-bit words.
\<close>

type_synonym code_unit = "16 word"
type_synonym jsstring = "code_unit list"

text \<open>
  A post as the JSON endpoint delivers it. The field \<^verbatim>\<open>id\<close> is called \<open>id_post\<close>
  because \<open>id\<close> is the identity function of HOL.
\<close>

record post =
  id_post :: int
  userId :: int
  title :: jsstring
  body :: jsstring

subsection \<open>Array.prototype.sort and Array.prototype.reverse\<close>

text \<open>
  \<^verbatim>\<open>posts.sort(compareFn)\<close>: a positive result of \<^verbatim>\<open>compareFn(a, b)\<close> puts \<open>a\<close>
  after \<open>b\<close>, and the sort is stable. For a comparator that is consistent (as the one of
  \<^verbatim>\<open>sortPosts\<close> is, being derived from a linear order) the result is fixed by these two
  facts whatever algorithm the engine runs; it is computed here by stable insertion.
\<close>

fun sort_insert :: "('a \<Rightarrow> 'a \<Rightarrow> int) \<Rightarrow> 'a \<Rightarrow> 'a list \<Rightarrow> 'a list" where
  "sort_insert compareFn a [] = [a]"
| "sort_insert compareFn a (b # bs) =
     (if compareFn a b > 0 then b # sort_insert compareFn a bs else a # b # bs)"

definition array_sort :: "('a \<Rightarrow> 'a \<Rightarrow> int) \<Rightarrow> 'a list \<Rightarrow> 'a list" where
  "array_sort compareFn xs = foldr (sort_insert compareFn) xs []"

subsection \<open>sortPosts\<close>

text \<open>The anonymous comparator handed to \<^verbatim>\<open>posts.sort\<close> in \<^verbatim>\<open>sortPosts\<close>.\<close>

definition sortPosts_compare :: "post \<Rightarrow> post \<Rightarrow> int" where
  "sortPosts_compare a b =
     (if title a < title b then 1
      else if title a > title b then - 1
      else 0)"

text \<open>
  The direction is the string the caller passes (\<^verbatim>\<open>"asc"\<close> or \<^verbatim>\<open>"desc"\<close>); only
  equality with \<^verbatim>\<open>"desc"\<close> is ever tested.
\<close>

definition sortPosts :: "post list \<Rightarrow> string \<Rightarrow> post list" where
  "sortPosts posts dir =
     (let sorted = array_sort sortPosts_compare posts
      in if dir = ''desc'' then rev sorted else sorted)"

subsection \<open>groupByUser\<close>

text \<open>
  The accumulator of \<^verbatim>\<open>reduce\<close> is an ordinary object whose property keys are the
  \<^verbatim>\<open>userId\<close> numbers converted to strings; different numbers give different strings.
  The object is kept as the list of its own properties in the order of their creation,
  each key written as the integer it prints. No key of this kind is found on
  \<^verbatim>\<open>Object.prototype\<close>, so a lookup sees the own properties only.
\<close>

type_synonym 'v jsobject = "(int \<times> 'v) list"

text \<open>\<^verbatim>\<open>acc[key]\<close>: \<open>None\<close> is \<^verbatim>\<open>undefined\<close>.\<close>

definition obj_get :: "'v jsobject \<Rightarrow> int \<Rightarrow> 'v option" where
  "obj_get obj key = map_of obj key"

text \<open>
  \<^verbatim>\<open>acc[key] = v\<close>: an existing property keeps its place, a new one is created after
  all the others.
\<close>

fun obj_set :: "'v jsobject \<Rightarrow> int \<Rightarrow> 'v \<Rightarrow> 'v jsobject" where
  "obj_set [] key v = [(key, v)]"
| "obj_set ((k, w) # obj) key v =
     (if k = key then (k, v) # obj else (k, w) # obj_set obj key v)"

text \<open>
  A property key is an array index when it is the canonical decimal form of an integer
  from \<open>0\<close> to \<open>2\<^sup>3\<^sup>2 - 2\<close>.
\<close>

definition is_array_index :: "int \<Rightarrow> bool" where
  "is_array_index k = (0 \<le> k \<and> k \<le> 4294967294)"

text \<open>
  \<^verbatim>\<open>Object.values(obj)\<close> follows the order of the own property keys: the array
  indices in ascending numeric order first, then the other keys in the order of their
  creation.
\<close>

definition Object_values :: "'v jsobject \<Rightarrow> 'v list" where
  "Object_values obj =
     map snd (sort_key fst (filter (\<lambda>e. is_array_index (fst e)) obj)
              @ filter (\<lambda>e. \<not> is_array_index (fst e)) obj)"

text \<open>
  The callback of \<^verbatim>\<open>reduce\<close>. \<^verbatim>\<open>!acc[key]\<close> holds exactly when the property is
  missing (an array, even an empty one, is truthy); then it is created as \<^verbatim>\<open>[]\<close>
  before the \<^verbatim>\<open>push\<close>.
\<close>

definition groupByUser_reducer :: "post list jsobject \<Rightarrow> post \<Rightarrow> post list jsobject" where
  "groupByUser_reducer acc item =
     (let key = userId item
      in case obj_get acc key of
           None \<Rightarrow> obj_set acc key ([] @ [item])
         | Some arr \<Rightarrow> obj_set acc key (arr @ [item]))"

definition groupByUser :: "post list \<Rightarrow> post list" where
  "groupByUser posts =
     (let grouped = foldl groupByUser_reducer [] posts
      in concat (Object_values grouped))"

subsection \<open>fetchPosts, render and the three public operations\<close>

datatype js_error = TypeError | SyntaxError | InvalidStateError | EncodingError

text \<open>
  A response is what \<^verbatim>\<open>response.json()\<close> settles to: a rejection, or the parsed
  array of posts. The network gives, for the argument handed to \<^verbatim>\<open>fetch\<close>
  (\<open>None\<close> when the argument is \<^verbatim>\<open>undefined\<close>), a rejection or a response.
\<close>

datatype response = Response (json: "js_error + post list")

type_synonym network = "string option \<Rightarrow> js_error + response"

text \<open>What \<^verbatim>\<open>buildPostElement\<close> puts into the four spans of one list item.\<close>

record post_element =
  spanPostId :: int
  spanUserId :: int
  spanTitle :: jsstring
  spanBody :: jsstring

definition buildPostElement :: "int \<Rightarrow> int \<Rightarrow> jsstring \<Rightarrow> jsstring \<Rightarrow> post_element" where
  "buildPostElement postId userId' title' postBody =
     \<lparr>spanPostId = postId, spanUserId = userId', spanTitle = title', spanBody = postBody\<rparr>"

datatype event = Fetch "string option" | ConsoleLog js_error | Render "post list"

text \<open>
  The page: the script's \<^verbatim>\<open>data\<close> object (\<open>posts\<close>, \<open>sortDirection\<close> with \<open>None\<close>
  for \<^verbatim>\<open>undefined\<close>), the children of the element \<^verbatim>\<open>#posts\<close>, and the calls made
  to \<^verbatim>\<open>fetch\<close>, \<^verbatim>\<open>console.log\<close> and \<^verbatim>\<open>render\<close> so far, oldest first.
\<close>

record page =
  posts :: "post list"
  sortDirection :: "string option"
  view :: "post_element list"
  trace :: "event list"

definition render :: "post list \<Rightarrow> page \<Rightarrow> page" where
  "render ps pg =
     pg\<lparr>view := map (\<lambda>p. buildPostElement (id_post p) (userId p) (title p) (body p)) ps,
        trace := trace pg @ [Render ps]\<rparr>"

text \<open>
  \<^verbatim>\<open>fetchPosts\<close>: both awaits are inside the \<^verbatim>\<open>try\<close>; the \<^verbatim>\<open>catch\<close> logs and
  returns the empty array.
\<close>

definition fetchPosts :: "network \<Rightarrow> string option \<Rightarrow> page \<Rightarrow> post list \<times> page" where
  "fetchPosts net apiUrl pg =
     (let pg1 = pg\<lparr>trace := trace pg @ [Fetch apiUrl]\<rparr>
      in case (case net apiUrl of Inl err \<Rightarrow> Inl err | Inr resp \<Rightarrow> json resp) of
           Inr ps \<Rightarrow> (ps, pg1)
         | Inl err \<Rightarrow> ([], pg1\<lparr>trace := trace pg1 @ [ConsoleLog err]\<rparr>))"

definition fetchAndRenderPosts :: "network \<Rightarrow> string option \<Rightarrow> page \<Rightarrow> page" where
  "fetchAndRenderPosts net apiUrl pg =
     (let (ps, pg1) = fetchPosts net apiUrl pg;
          pg2 = pg1\<lparr>posts := ps\<rparr>
      in render (posts pg2) pg2)"

text \<open>
  In both operations the implicit fetch is the call \<^verbatim>\<open>fetchPosts()\<close>, without an
  argument, so that \<^verbatim>\<open>apiUrl\<close> is \<^verbatim>\<open>undefined\<close>.
\<close>

definition sortAndRenderPosts :: "network \<Rightarrow> page \<Rightarrow> page" where
  "sortAndRenderPosts net pg =
     (let pg1 = (if length (posts pg) = 0
                 then (let (ps, pg') = fetchPosts net None pg in pg'\<lparr>posts := ps\<rparr>)
                 else pg);
          dir = (if sortDirection pg1 = Some ''asc'' then ''desc'' else ''asc'');
          pg2 = pg1\<lparr>sortDirection := Some dir\<rparr>;
          pg3 = pg2\<lparr>posts := sortPosts (posts pg2) dir\<rparr>
      in render (posts pg3) pg3)"

definition groupAndRenderPosts :: "network \<Rightarrow> page \<Rightarrow> page" where
  "groupAndRenderPosts net pg =
     (let pg1 = (if length (posts pg) = 0
                 then (let (ps, pg') = fetchPosts net None pg in pg'\<lparr>posts := ps\<rparr>)
                 else pg);
          pg2 = pg1\<lparr>posts := groupByUser (posts pg1)\<rparr>
      in render (posts pg2) pg2)"

text \<open>The page as the script leaves it when it is loaded.\<close>

definition initial_page :: page where
  "initial_page = \<lparr>posts = [], sortDirection = None, view = [], trace = []\<rparr>"

text \<open>The arguments of the calls to \<^verbatim>\<open>fetch\<close> in a trace, in order.\<close>

fun fetch_args :: "event list \<Rightarrow> string option list" where
  "fetch_args [] = []"
| "fetch_args (Fetch a # evs) = a # fetch_args evs"
| "fetch_args (ConsoleLog e # evs) = fetch_args evs"
| "fetch_args (Render ps # evs) = fetch_args evs"

subsection \<open>Notions used to state the properties of page 1\<close>

text \<open>The distinct keys of a list, each at the place of its first occurrence.\<close>

definition first_seen :: "int list \<Rightarrow> int list" where
  "first_seen ks = rev (remdups (rev ks))"

text \<open>
  The order in which an object lists its own keys, given the order of their creation.
\<close>

definition own_key_order :: "int list \<Rightarrow> int list" where
  "own_key_order ks =
     sort (filter is_array_index ks) @ filter (\<lambda>k. \<not> is_array_index k) ks"

text \<open>The posts of one user, in the order they have in the list.\<close>

definition group_of :: "post list \<Rightarrow> int \<Rightarrow> post list" where
  "group_of ps k = filter (\<lambda>p. userId p = k) ps"

text \<open>Posts for the examples: one with a title only, one with an id and a user only.\<close>

definition titled :: "jsstring \<Rightarrow> post" where
  "titled t = \<lparr>id_post = 0, userId = 0, title = t, body = []\<rparr>"

definition by_user :: "int \<Rightarrow> int \<Rightarrow> post" where
  "by_user i u = \<lparr>id_post = i, userId = u, title = [], body = []\<rparr>"

text \<open>The one-letter strings \<^verbatim>\<open>"A"\<close>, \<^verbatim>\<open>"B"\<close> and \<^verbatim>\<open>"C"\<close>.\<close>

definition str_A :: jsstring where "str_A = [0x41]"
definition str_B :: jsstring where "str_B = [0x42]"
definition str_C :: jsstring where "str_C = [0x43]"

text \<open>A network on which every request is rejected.\<close>

definition offline :: network where
  "offline = (\<lambda>apiUrl. Inl TypeError)"

text \<open>
  A network that answers the endpoint \<^verbatim>\<open>"/posts"\<close> with the empty array and rejects
  every other request.
\<close>

definition empty_endpoint :: network where
  "empty_endpoint =
     (\<lambda>apiUrl. if apiUrl = Some ''/posts'' then Inr (Response (Inr [])) else Inl TypeError)"

section \<open>Page 2: the audio control panel (page2.js)\<close>

subsection \<open>The audio context and its source nodes\<close>

text \<open>A decoded buffer is opaque; the number tells buffers apart.\<close>

datatype audio_buffer = AudioBuffer nat

text \<open>
  An \<^verbatim>\<open>AudioBufferSourceNode\<close>: its buffer, whether it is connected to the destination,
  whether \<^verbatim>\<open>start\<close> has been called on it and whether \<^verbatim>\<open>stop\<close> has.
\<close>

record source_node =
  buffer :: "audio_buffer option"
  connected :: bool
  started :: bool
  stopped :: bool

text \<open>
  The audio context is the store of the nodes it has created; a reference to a node is
  its index in the store.
\<close>

type_synonym audio_context = "source_node list"

definition createBufferSource :: "audio_context \<Rightarrow> nat \<times> audio_context" where
  "createBufferSource ctx =
     (length ctx,
      ctx @ [\<lparr>buffer = None, connected = False, started = False, stopped = False\<rparr>])"

text \<open>
  The methods of a node. A reference always points into the store; an index outside it
  is answered with \<open>TypeError\<close>, as a call on something that is not a node would be.
  \<^verbatim>\<open>start\<close> on a node that has been started raises \<open>InvalidStateError\<close> (``cannot call
  start more than once''), and so does \<^verbatim>\<open>stop\<close> on a node that has not been started.
\<close>

definition set_buffer :: "nat \<Rightarrow> audio_buffer \<Rightarrow> audio_context \<Rightarrow> js_error + audio_context" where
  "set_buffer n b ctx =
     (if n < length ctx then Inr (ctx[n := (ctx ! n)\<lparr>buffer := Some b\<rparr>]) else Inl TypeError)"

definition connect :: "nat \<Rightarrow> audio_context \<Rightarrow> js_error + audio_context" where
  "connect n ctx =
     (if n < length ctx then Inr (ctx[n := (ctx ! n)\<lparr>connected := True\<rparr>]) else Inl TypeError)"

definition start :: "nat \<Rightarrow> audio_context \<Rightarrow> js_error + audio_context" where
  "start n ctx =
     (if n < length ctx
      then (if started (ctx ! n) then Inl InvalidStateError
            else Inr (ctx[n := (ctx ! n)\<lparr>started := True\<rparr>]))
      else Inl TypeError)"

definition stop :: "nat \<Rightarrow> audio_context \<Rightarrow> js_error + audio_context" where
  "stop n ctx =
     (if n < length ctx
      then (if started (ctx ! n) then Inr (ctx[n := (ctx ! n)\<lparr>stopped := True\<rparr>])
            else Inl InvalidStateError)
      else Inl TypeError)"

subsection \<open>One control entry\<close>

text \<open>
  What \<^verbatim>\<open>createAudioControls\<close> builds: the file name shown, the buffer the closures
  hold, the \<^verbatim>\<open>disabled\<close> flag of each button and the variable \<^verbatim>\<open>sourceNode\<close> of the
  closure (\<open>None\<close> for \<^verbatim>\<open>undefined\<close> and for \<^verbatim>\<open>null\<close>).
\<close>

record audio_control =
  fileName :: string
  audioBuffer :: audio_buffer
  playButton_disabled :: bool
  stopButton_disabled :: bool
  sourceNode :: "nat option"

text \<open>
  \<^verbatim>\<open>createButton\<close> leaves a button enabled; \<^verbatim>\<open>createControlButtons\<close> disables the
  stop button.
\<close>

definition createAudioControls :: "string \<Rightarrow> audio_buffer \<Rightarrow> audio_control" where
  "createAudioControls audioFileURL buf =
     \<lparr>fileName = audioFileURL, audioBuffer = buf,
      playButton_disabled = False, stopButton_disabled = True, sourceNode = None\<rparr>"

text \<open>
  \<^verbatim>\<open>playAudio\<close> overwrites its parameter \<^verbatim>\<open>sourceNode\<close> at once, so the model does
  not take it. The result is the new node, the context and the entry with its buttons
  switched; an exception leaves through \<open>Inl\<close>.
\<close>

definition playAudio ::
  "audio_context \<Rightarrow> audio_buffer \<Rightarrow> audio_control \<Rightarrow> js_error + (nat \<times> audio_context \<times> audio_control)" where
  "playAudio ctx buf c =
     (let (node, ctx1) = createBufferSource ctx
      in case set_buffer node buf ctx1 of
           Inl e \<Rightarrow> Inl e
         | Inr ctx2 \<Rightarrow>
             (case connect node ctx2 of
                Inl e \<Rightarrow> Inl e
              | Inr ctx3 \<Rightarrow>
                  (case start node ctx3 of
                     Inl e \<Rightarrow> Inl e
                   | Inr ctx4 \<Rightarrow>
                       Inr (node, ctx4,
                            c\<lparr>playButton_disabled := True, stopButton_disabled := False\<rparr>))))"

text \<open>
  \<^verbatim>\<open>stopAudio\<close> returns \<^verbatim>\<open>null\<close> besides its effects on the node and the buttons; the
  first component of the result is that return value.
\<close>

definition stopAudio ::
  "nat option \<Rightarrow> audio_context \<Rightarrow> audio_control \<Rightarrow> js_error + (nat option \<times> audio_context \<times> audio_control)" where
  "stopAudio node ctx c =
     (case (case node of None \<Rightarrow> Inr ctx | Some n \<Rightarrow> stop n ctx) of
        Inl e \<Rightarrow> Inl e
      | Inr ctx1 \<Rightarrow>
          Inr (None, ctx1, c\<lparr>playButton_disabled := False, stopButton_disabled := True\<rparr>))"

text \<open>
  The two click listeners. The play listener assigns the result of \<^verbatim>\<open>playAudio\<close> to
  \<^verbatim>\<open>sourceNode\<close>; the stop listener calls \<^verbatim>\<open>stopAudio\<close> as a statement, so its
  result goes nowhere.
\<close>

definition play_click :: "audio_context \<times> audio_control \<Rightarrow> js_error + (audio_context \<times> audio_control)" where
  "play_click s =
     (let (ctx, c) = s
      in if \<not> playButton_disabled c
         then (case playAudio ctx (audioBuffer c) c of
                 Inl e \<Rightarrow> Inl e
               | Inr (node, ctx1, c1) \<Rightarrow> Inr (ctx1, c1\<lparr>sourceNode := Some node\<rparr>))
         else Inr (ctx, c))"

definition stop_click :: "audio_context \<times> audio_control \<Rightarrow> js_error + (audio_context \<times> audio_control)" where
  "stop_click s =
     (let (ctx, c) = s
      in if \<not> stopButton_disabled c
         then (case stopAudio (sourceNode c) ctx c of
                 Inl e \<Rightarrow> Inl e
               | Inr (returned, ctx1, c1) \<Rightarrow> Inr (ctx1, c1))
         else Inr (ctx, c))"

text \<open>A sequence of clicks on the two buttons of one entry; an exception ends it.\<close>

datatype click = Play | Stop

fun clicks :: "click list \<Rightarrow> audio_context \<times> audio_control \<Rightarrow> js_error + (audio_context \<times> audio_control)" where
  "clicks [] s = Inr s"
| "clicks (Play # cs) s = (case play_click s of Inl e \<Rightarrow> Inl e | Inr s1 \<Rightarrow> clicks cs s1)"
| "clicks (Stop # cs) s = (case stop_click s of Inl e \<Rightarrow> Inl e | Inr s1 \<Rightarrow> clicks cs s1)"

subsection \<open>Loading the files and building the panel\<close>

type_synonym bytes = "8 word list"

text \<open>
  An audio response is what \<^verbatim>\<open>response.arrayBuffer()\<close> settles to. The environment
  gives the outcome of \<^verbatim>\<open>fetch\<close> for each URL and of \<^verbatim>\<open>decodeAudioData\<close> for each
  array of bytes.
\<close>

datatype audio_response = AudioResponse (arrayBuffer: "js_error + bytes")

record audio_env =
  fetch_audio :: "string \<Rightarrow> js_error + audio_response"
  decodeAudioData :: "bytes \<Rightarrow> js_error + audio_buffer"

text \<open>What the page does while it loads, in the order it does it.\<close>

datatype audio_event =
    FetchAudio string
  | ReadBytes string
  | Decode bytes
  | ConsoleError js_error
  | AppendControl string

text \<open>
  The audio page: the context, the children of the element \<^verbatim>\<open>#audioControls\<close> and
  the events so far, oldest first.
\<close>

record audio_page =
  audioContext :: audio_context
  audioControls :: "audio_control list"
  history :: "audio_event list"

text \<open>\<^verbatim>\<open>loadAudioFile\<close>: the three awaits are inside the \<^verbatim>\<open>try\<close>.\<close>

definition loadAudioFile :: "audio_env \<Rightarrow> string \<Rightarrow> audio_page \<Rightarrow> audio_buffer option \<times> audio_page" where
  "loadAudioFile env audioFileURL pg =
     (let pg1 = pg\<lparr>history := history pg @ [FetchAudio audioFileURL]\<rparr>
      in case fetch_audio env audioFileURL of
           Inl e \<Rightarrow> (None, pg1\<lparr>history := history pg1 @ [ConsoleError e]\<rparr>)
         | Inr resp \<Rightarrow>
             (let pg2 = pg1\<lparr>history := history pg1 @ [ReadBytes audioFileURL]\<rparr>
              in case arrayBuffer resp of
                   Inl e \<Rightarrow> (None, pg2\<lparr>history := history pg2 @ [ConsoleError e]\<rparr>)
                 | Inr bs \<Rightarrow>
                     (let pg3 = pg2\<lparr>history := history pg2 @ [Decode bs]\<rparr>
                      in case decodeAudioData env bs of
                           Inl e \<Rightarrow> (None, pg3\<lparr>history := history pg3 @ [ConsoleError e]\<rparr>)
                         | Inr buf \<Rightarrow> (Some buf, pg3))))"

text \<open>One turn of the \<^verbatim>\<open>for\<close> loop of the \<^verbatim>\<open>DOMContentLoaded\<close> listener.\<close>

definition load_one :: "audio_env \<Rightarrow> string \<Rightarrow> audio_page \<Rightarrow> audio_page" where
  "load_one env audioFileURL pg =
     (let (loaded, pg1) = loadAudioFile env audioFileURL pg
      in case loaded of
           None \<Rightarrow> pg1
         | Some buf \<Rightarrow>
             pg1\<lparr>audioControls := audioControls pg1 @ [createAudioControls audioFileURL buf],
                 history := history pg1 @ [AppendControl audioFileURL]\<rparr>)"

fun load_all :: "audio_env \<Rightarrow> string list \<Rightarrow> audio_page \<Rightarrow> audio_page" where
  "load_all env [] pg = pg"
| "load_all env (audioFileURL # urls) pg = load_all env urls (load_one env audioFileURL pg)"

definition audioFiles :: "string list" where
  "audioFiles =
     [''https://ia600905.us.archive.org/19/items/FREE_background_music_dhalius/BackgroundMusica2.ogg'',
      ''https://ia800905.us.archive.org/19/items/FREE_background_music_dhalius/Hangout.ogg'',
      ''https://ia800905.us.archive.org/19/items/FREE_background_music_dhalius/Lotus.ogg'']"

text \<open>The audio page before its script runs: no node, no entry, no event.\<close>

definition empty_audio_page :: audio_page where
  "empty_audio_page = \<lparr>audioContext = [], audioControls = [], history = []\<rparr>"

text \<open>The \<^verbatim>\<open>DOMContentLoaded\<close> listener: a new context, then the loop.\<close>

definition on_DOMContentLoaded :: "audio_env \<Rightarrow> audio_page" where
  "on_DOMContentLoaded env = load_all env audioFiles empty_audio_page"

subsection \<open>Notions used to state the properties of page 2\<close>

text \<open>Whether a URL loads: the buffer \<^verbatim>\<open>loadAudioFile\<close> returns for it, if any.\<close>

definition loaded_buffer :: "audio_env \<Rightarrow> string \<Rightarrow> audio_buffer option" where
  "loaded_buffer env url = fst (loadAudioFile env url empty_audio_page)"

text \<open>The entry a URL adds to the panel: one if it loads, none if it does not.\<close>

definition entry_for :: "audio_env \<Rightarrow> string \<Rightarrow> audio_control list" where
  "entry_for env url =
     (case loaded_buffer env url of None \<Rightarrow> [] | Some buf \<Rightarrow> [createAudioControls url buf])"

text \<open>The events of one turn of the loop, run on its own.\<close>

definition events_of :: "audio_env \<Rightarrow> string \<Rightarrow> audio_event list" where
  "events_of env url = history (load_one env url empty_audio_page)"

text \<open>
  Two facts that hold of an entry and its context whatever is clicked: the node the entry
  refers to, if any, is in the store and has been started; and exactly one of the two
  buttons is enabled.
\<close>

definition handle_ok :: "audio_context \<times> audio_control \<Rightarrow> bool" where
  "handle_ok s =
     (case sourceNode (snd s) of
        None \<Rightarrow> True
      | Some n \<Rightarrow> n < length (fst s) \<and> started (fst s ! n))"

definition one_enabled :: "audio_context \<times> audio_control \<Rightarrow> bool" where
  "one_enabled s = (playButton_disabled (snd s) = (\<not> stopButton_disabled (snd s)))"

text \<open>
  A click on a button of the entry at place \<open>i\<close> of the panel. The listeners of every
  entry hold the one context the page has created, so the click works on the context of
  the page and on that entry; the other entries stay as they are. A place the panel does
  not have has no button to click.
\<close>

definition click_entry :: "nat \<Rightarrow> click \<Rightarrow> audio_page \<Rightarrow> js_error + audio_page" where
  "click_entry i k pg =
     (if i < length (audioControls pg)
      then (case (case k of
                    Play \<Rightarrow> play_click (audioContext pg, audioControls pg ! i)
                  | Stop \<Rightarrow> stop_click (audioContext pg, audioControls pg ! i)) of
              Inl e \<Rightarrow> Inl e
            | Inr (ctx, c) \<Rightarrow>
                Inr (pg\<lparr>audioContext := ctx, audioControls := (audioControls pg)[i := c]\<rparr>))
      else Inr pg)"

text \<open>A sequence of clicks on the buttons of the panel; an exception ends it.\<close>

fun panel_clicks :: "(nat \<times> click) list \<Rightarrow> audio_page \<Rightarrow> js_error + audio_page" where
  "panel_clicks [] pg = Inr pg"
| "panel_clicks ((i, k) # acts) pg =
     (case click_entry i k pg of Inl e \<Rightarrow> Inl e | Inr pg1 \<Rightarrow> panel_clicks acts pg1)"

text \<open>The two facts, of every entry of a page against the context of the page.\<close>

definition panel_ok :: "audio_page \<Rightarrow> bool" where
  "panel_ok pg =
     list_all (\<lambda>c. playButton_disabled c = (\<not> stopButton_disabled c)
                   \<and> handle_ok (audioContext pg, c))
       (audioControls pg)"

text \<open>
  An environment with one URL whose fetch is rejected, one whose body cannot be read and
  one whose bytes do not decode; every other URL decodes.
\<close>

definition three_failures :: audio_env where
  "three_failures =
     \<lparr>fetch_audio =
        (\<lambda>url. if url = ''gone.ogg'' then Inl TypeError
               else if url = ''cut.ogg'' then Inr (AudioResponse (Inl TypeError))
               else if url = ''noise.ogg'' then Inr (AudioResponse (Inr []))
               else Inr (AudioResponse (Inr [1]))),
      decodeAudioData =
        (\<lambda>bs. if bs = [] then Inl EncodingError else Inr (AudioBuffer (length bs)))\<rparr>"

text \<open>
  An environment in which the second of the three files is fetched but does not decode,
  and the two others decode.
\<close>

definition second_fails :: audio_env where
  "second_fails =
     \<lparr>fetch_audio =
        (\<lambda>url. Inr (AudioResponse (Inr (if url = hd (tl audioFiles) then [] else [1])))),
      decodeAudioData =
        (\<lambda>bs. if bs = [] then Inl EncodingError else Inr (AudioBuffer (length bs)))\<rparr>"

text \<open>
  For the examples: a page with two new entries and no node yet, an entry that is
  playing the node \<open>n\<close>, and a node that has been started.
\<close>

definition two_entries :: audio_page where
  "two_entries =
     \<lparr>audioContext = [],
      audioControls = [createAudioControls ''a.ogg'' (AudioBuffer 0),
                       createAudioControls ''b.ogg'' (AudioBuffer 1)],
      history = []\<rparr>"

definition playing :: "string \<Rightarrow> audio_buffer \<Rightarrow> nat \<Rightarrow> audio_control" where
  "playing url buf n =
     \<lparr>fileName = url, audioBuffer = buf, playButton_disabled = True,
      stopButton_disabled = False, sourceNode = Some n\<rparr>"

definition node_of :: "audio_buffer \<Rightarrow> bool \<Rightarrow> source_node" where
  "node_of buf halted = \<lparr>buffer = Some buf, connected = True, started = True, stopped = halted\<rparr>"

section \<open>Properties of page 1\<close>

subsection \<open>The sort\<close>

lemma mset_sort_insert: "mset (sort_insert compareFn a bs) = add_mset a (mset bs)"
  by (induction bs) simp_all

lemma mset_array_sort: "mset (array_sort compareFn xs) = mset xs"
  by (induction xs) (simp_all add: array_sort_def mset_sort_insert)

lemma set_sort_insert: "set (sort_insert compareFn a bs) = insert a (set bs)"
  by (induction bs) auto

lemma sorted_sort_insert:
  "sorted_wrt (\<lambda>a b. title b \<le> title a) bs \<Longrightarrow>
   sorted_wrt (\<lambda>a b. title b \<le> title a) (sort_insert sortPosts_compare a bs)"
  by (induction bs) (auto simp: set_sort_insert sortPosts_compare_def)

lemma sorted_array_sort:
  "sorted_wrt (\<lambda>a b. title b \<le> title a) (array_sort sortPosts_compare xs)"
proof (induction xs)
  case Nil
  show ?case by (simp add: array_sort_def)
next
  case (Cons x xs)
  then show ?case using sorted_sort_insert [of "array_sort sortPosts_compare xs" x]
    by (simp add: array_sort_def)
qed

lemma sort_insert_front:
  "\<forall>b \<in> set bs. title b \<le> title a \<Longrightarrow> sort_insert sortPosts_compare a bs = a # bs"
  by (cases bs) (auto simp: sortPosts_compare_def)

lemma array_sort_sorted:
  "sorted_wrt (\<lambda>a b. title b \<le> title a) xs \<Longrightarrow> array_sort sortPosts_compare xs = xs"
proof (induction xs)
  case Nil
  show ?case by (simp add: array_sort_def)
next
  case (Cons x xs)
  then have "array_sort sortPosts_compare xs = xs" by simp
  then have "array_sort sortPosts_compare (x # xs) = sort_insert sortPosts_compare x xs"
    by (simp add: array_sort_def)
  with Cons.prems show ?case by (simp add: sort_insert_front)
qed

lemma sort_insert_back:
  "\<forall>b \<in> set bs. title a < title b \<Longrightarrow> sort_insert sortPosts_compare a bs = bs @ [a]"
  by (induction bs) (auto simp: sortPosts_compare_def)

lemma foldr_sort_insert_rev:
  "sorted_wrt (\<lambda>a b. title b < title a) (acc @ xs) \<Longrightarrow>
   foldr (sort_insert sortPosts_compare) (rev xs) acc = acc @ xs"
proof (induction xs arbitrary: acc)
  case Nil
  show ?case by simp
next
  case (Cons x xs)
  from Cons.prems have "\<forall>b \<in> set acc. title x < title b"
    by (auto simp: sorted_wrt_append)
  then have "sort_insert sortPosts_compare x acc = acc @ [x]" by (rule sort_insert_back)
  moreover from Cons.prems have "sorted_wrt (\<lambda>a b. title b < title a) ((acc @ [x]) @ xs)" by simp
  ultimately show ?case using Cons.IH [of "acc @ [x]"] by simp
qed

lemma array_sort_rev:
  "sorted_wrt (\<lambda>a b. title b < title a) xs \<Longrightarrow> array_sort sortPosts_compare (rev xs) = xs"
  using foldr_sort_insert_rev [of "[]" xs] by (simp add: array_sort_def)

lemma strict_of_distinct:
  "sorted_wrt (\<lambda>a b. title b \<le> title a) xs \<Longrightarrow> distinct (map title xs) \<Longrightarrow>
   sorted_wrt (\<lambda>a b. title b < title a) xs"
proof (induction xs)
  case Nil
  show ?case by simp
next
  case (Cons x xs)
  have below: "title b < title x" if "b \<in> set xs" for b
  proof -
    have le: "title b \<le> title x" using that Cons.prems(1) by simp
    have "title x \<notin> set (map title xs)" using Cons.prems(2) by simp
    moreover have "title b \<in> set (map title xs)" using that by simp
    ultimately have "title b \<noteq> title x" by metis
    with le show ?thesis by simp
  qed
  from Cons have "sorted_wrt (\<lambda>a b. title b < title a) xs" by simp
  with below show ?case by simp
qed

lemma weak_of_strict:
  "sorted_wrt (\<lambda>a b. title b < title a) xs \<Longrightarrow> sorted_wrt (\<lambda>a b. title b \<le> title a) xs"
  by (erule sorted_wrt_mono_rel [rotated]) simp

lemma sortPosts_toggle_twice:
  assumes dist: "distinct (map title ps)"
    and dir: "d = ''asc'' \<or> d = ''desc''"
    and srt: "ps = sortPosts ps d"
  shows "sortPosts (sortPosts ps (if d = ''asc'' then ''desc'' else ''asc'')) d = ps"
proof -
  let ?S = "array_sort sortPosts_compare"
  from dir show ?thesis
  proof
    assume d: "d = ''asc''"
    with srt have "ps = ?S ps" by (simp add: sortPosts_def)
    then have "sorted_wrt (\<lambda>a b. title b \<le> title a) ps" using sorted_array_sort [of ps] by simp
    then have st: "sorted_wrt (\<lambda>a b. title b < title a) ps" using dist by (rule strict_of_distinct)
    have "?S ps = ps" using st by (simp add: array_sort_sorted weak_of_strict)
    moreover have "?S (rev ps) = ps" using st by (rule array_sort_rev)
    ultimately show ?thesis using d by (simp add: sortPosts_def)
  next
    assume d: "d = ''desc''"
    with srt have r: "rev ps = ?S ps" by (simp add: sortPosts_def rev_swap)
    then have w: "sorted_wrt (\<lambda>a b. title b \<le> title a) (rev ps)"
      using sorted_array_sort [of ps] by simp
    have "?S (rev ps) = rev ps" using w by (rule array_sort_sorted)
    then have "?S (?S ps) = ?S ps" using r by simp
    moreover have "rev (?S ps) = ps" using r by (metis rev_rev_ident)
    ultimately show ?thesis using d by (simp add: sortPosts_def)
  qed
qed

subsection \<open>The grouping\<close>

lemma first_seen_snoc:
  "first_seen (ks @ [k]) = (if k \<in> set ks then first_seen ks else first_seen ks @ [k])"
  by (simp add: first_seen_def)

lemma set_first_seen: "set (first_seen ks) = set ks"
  by (simp add: first_seen_def)

lemma distinct_first_seen: "distinct (first_seen ks)"
  by (simp add: first_seen_def)

lemma obj_get_table:
  "obj_get (map (\<lambda>k. (k, f k)) K) key = (if key \<in> set K then Some (f key) else None)"
  by (induction K) (auto simp: obj_get_def)

lemma obj_set_new:
  "key \<notin> set K \<Longrightarrow> obj_set (map (\<lambda>k. (k, f k)) K) key v = map (\<lambda>k. (k, f k)) K @ [(key, v)]"
  by (induction K) auto

lemma obj_set_old:
  "key \<in> set K \<Longrightarrow> distinct K \<Longrightarrow>
   obj_set (map (\<lambda>k. (k, f k)) K) key v = map (\<lambda>k. (k, (f(key := v)) k)) K"
  by (induction K) auto

lemma group_of_snoc:
  "group_of (ps @ [p]) k = (if userId p = k then group_of ps k @ [p] else group_of ps k)"
  by (simp add: group_of_def)

lemma group_of_empty: "k \<notin> userId ` set ps \<Longrightarrow> group_of ps k = []"
  by (auto simp: group_of_def filter_empty_conv)

lemma reduce_closed_form:
  "foldl groupByUser_reducer [] ps =
     map (\<lambda>k. (k, group_of ps k)) (first_seen (map userId ps))"
proof (induction ps rule: rev_induct)
  case Nil
  show ?case by (simp add: first_seen_def)
next
  case (snoc p ps)
  let ?K = "first_seen (map userId ps)"
  let ?key = "userId p"
  show ?case
  proof (cases "?key \<in> set (map userId ps)")
    case True
    then have inK: "?key \<in> set ?K" by (simp add: set_first_seen)
    have "groupByUser_reducer (map (\<lambda>k. (k, group_of ps k)) ?K) p =
          map (\<lambda>k. (k, ((group_of ps)(?key := group_of ps ?key @ [p])) k)) ?K"
      using inK by (simp add: groupByUser_reducer_def Let_def obj_get_table obj_set_old distinct_first_seen)
    also have "\<dots> = map (\<lambda>k. (k, group_of (ps @ [p]) k)) ?K"
      by (simp add: group_of_snoc)
    finally show ?thesis using True snoc by (simp add: first_seen_snoc)
  next
    case False
    then have notK: "?key \<notin> set ?K" by (simp add: set_first_seen)
    have e: "group_of ps ?key = []" using False by (simp add: group_of_empty)
    have "groupByUser_reducer (map (\<lambda>k. (k, group_of ps k)) ?K) p =
          map (\<lambda>k. (k, group_of ps k)) ?K @ [(?key, [p])]"
      using notK by (simp add: groupByUser_reducer_def Let_def obj_get_table obj_set_new)
    also have "\<dots> = map (\<lambda>k. (k, group_of (ps @ [p]) k)) (?K @ [?key])"
      using notK e by (auto simp: group_of_snoc)
    finally show ?thesis using False snoc by (simp add: first_seen_snoc)
  qed
qed

lemma insort_key_table:
  "insort_key fst (k, f k) (map (\<lambda>k. (k, f k)) K) = map (\<lambda>k. (k, f k)) (insort k K)"
  by (induction K) auto

lemma sort_key_table:
  "sort_key fst (map (\<lambda>k. (k, f k)) K) = map (\<lambda>k. (k, f k)) (sort K)"
  by (induction K) (simp_all add: insort_key_table)

lemma Object_values_table:
  "Object_values (map (\<lambda>k. (k, f k)) K) = map f (own_key_order K)"
  by (simp add: Object_values_def own_key_order_def filter_map comp_def sort_key_table)

lemma groupByUser_closed_form:
  "groupByUser ps = concat (map (group_of ps) (own_key_order (first_seen (map userId ps))))"
  by (simp add: groupByUser_def reduce_closed_form Object_values_table)

lemma mset_own_key_order: "mset (own_key_order K) = mset K"
  by (simp add: own_key_order_def)

lemma set_own_key_order: "set (own_key_order K) = set K"
  by (auto simp: own_key_order_def)

lemma distinct_own_key_order: "distinct K \<Longrightarrow> distinct (own_key_order K)"
  by (auto simp: own_key_order_def)

lemma mset_groups:
  "distinct K \<Longrightarrow>
   mset (concat (map (group_of ps) K)) = mset (filter (\<lambda>p. userId p \<in> set K) ps)"
proof (induction K)
  case Nil
  show ?case by simp
next
  case (Cons k K)
  have "mset (group_of ps k) + mset (filter (\<lambda>p. userId p \<in> set K) ps)
        = mset (filter (\<lambda>p. userId p \<in> set (k # K)) ps)"
    using Cons.prems by (induction ps) (auto simp: group_of_def)
  with Cons show ?case by simp
qed

lemma groups_split:
  assumes "distinct K" and "userId ` set ps \<subseteq> set K"
  shows "\<exists>pre suf. concat (map (group_of ps) K) = pre @ group_of ps u @ suf
           \<and> u \<notin> userId ` (set pre \<union> set suf)"
proof (cases "u \<in> set K")
  case True
  then obtain K1 K2 where K: "K = K1 @ u # K2" by (meson split_list)
  with assms(1) have n: "u \<notin> set K1" "u \<notin> set K2" by auto
  have "concat (map (group_of ps) K) =
        concat (map (group_of ps) K1) @ group_of ps u @ concat (map (group_of ps) K2)"
    by (simp add: K)
  moreover have "u \<notin> userId ` (set (concat (map (group_of ps) K1)) \<union> set (concat (map (group_of ps) K2)))"
    using n by (auto simp: group_of_def)
  ultimately show ?thesis by blast
next
  case False
  have "concat (map (group_of ps) K) = concat (map (group_of ps) K) @ group_of ps u @ []"
    "u \<notin> userId ` (set (concat (map (group_of ps) K)) \<union> set [])"
    using False assms(2) by (auto simp: group_of_def filter_empty_conv)
  then show ?thesis by blast
qed

subsection \<open>The claims about page 1\<close>

text \<open>
  C1: the comparator of \<^verbatim>\<open>sortPosts\<close> answers \<open>1\<close> when the first title is the smaller
  one, which puts the smaller title after the larger. On the titles B, A, C the direction
  \<^verbatim>\<open>"asc"\<close> therefore gives C, B, A and the direction \<^verbatim>\<open>"desc"\<close> gives A, B, C: each
  direction gives the order of the other. For every input the direction \<^verbatim>\<open>"asc"\<close> gives
  the titles from the largest down.
\<close>

theorem sortPosts_asc_is_descending:
  "map title (sortPosts [titled str_B, titled str_A, titled str_C] ''asc'') = [str_C, str_B, str_A]
   \<and> map title (sortPosts [titled str_B, titled str_A, titled str_C] ''desc'') = [str_A, str_B, str_C]
   \<and> sorted_wrt (\<lambda>a b. title b \<le> title a) (sortPosts ps ''asc'')"
proof -
  have "sorted_wrt (\<lambda>a b. title b \<le> title a) (sortPosts ps ''asc'')"
    using sorted_array_sort [of ps] by (simp add: sortPosts_def)
  then show ?thesis
    by (simp add: sortPosts_def array_sort_def sortPosts_compare_def titled_def
        str_A_def str_B_def str_C_def)
qed

text \<open>
  C2, as the claim states it: the groups would follow the first occurrences of the user
  ids, so that the user ids 2, 1, 2 would come out as 2, 2, 1. They do not.
\<close>

theorem groupByUser_first_seen_counterexample:
  "map userId (groupByUser [by_user 1 2, by_user 2 1, by_user 3 2]) \<noteq> [2, 2, 1]"
  by (simp add: groupByUser_def groupByUser_reducer_def obj_get_def Object_values_def
      is_array_index_def by_user_def Let_def)

text \<open>
  C2, amended: the result of \<^verbatim>\<open>groupByUser\<close> is the concatenation of the groups, one
  for each distinct user id, each group holding the posts of its user in the order of the
  input. The groups follow the order in which the accumulator object lists its keys: the
  user ids that are array indices (the integers from 0 to 4294967294) in ascending order,
  then the other user ids in the order of their first occurrence. So for every user id the
  result is some posts of other users, then the whole group of that user, then some posts
  of other users again; and the user ids 2, 1, 2 come out as 1, 2, 2.
\<close>

theorem groupByUser_groups:
  "groupByUser ps = concat (map (group_of ps) (own_key_order (first_seen (map userId ps))))
   \<and> distinct (own_key_order (first_seen (map userId ps)))
   \<and> (\<forall>u. \<exists>pre suf. groupByUser ps = pre @ group_of ps u @ suf
                        \<and> u \<notin> userId ` (set pre \<union> set suf))
   \<and> map userId (groupByUser [by_user 1 2, by_user 2 1, by_user 3 2]) = [1, 2, 2]"
proof -
  let ?K = "own_key_order (first_seen (map userId ps))"
  have d: "distinct ?K" by (simp add: distinct_own_key_order distinct_first_seen)
  have s: "userId ` set ps \<subseteq> set ?K" by (simp add: set_own_key_order set_first_seen)
  have c: "groupByUser ps = concat (map (group_of ps) ?K)" by (rule groupByUser_closed_form)
  have "\<exists>pre suf. groupByUser ps = pre @ group_of ps u @ suf
                        \<and> u \<notin> userId ` (set pre \<union> set suf)" for u
    unfolding c by (rule groups_split [OF d s])
  moreover have "map userId (groupByUser [by_user 1 2, by_user 2 1, by_user 3 2]) = [1, 2, 2]"
    by (simp add: groupByUser_def groupByUser_reducer_def obj_get_def Object_values_def
      is_array_index_def by_user_def Let_def)
  ultimately show ?thesis using c d by blast
qed

text \<open>
  C5, as the claim states it: two calls of \<^verbatim>\<open>sortAndRenderPosts\<close> would give back the
  order the posts had before. Posts with the distinct titles B, A, C, not yet sorted, do
  not come back in that order.
\<close>

theorem sort_twice_counterexample:
  "posts (sortAndRenderPosts offline (sortAndRenderPosts offline
      \<lparr>posts = [titled str_B, titled str_A, titled str_C], sortDirection = None,
       view = [], trace = []\<rparr>))
   \<noteq> [titled str_B, titled str_A, titled str_C]"
  by (simp add: sortAndRenderPosts_def render_def sortPosts_def array_sort_def
      sortPosts_compare_def titled_def str_A_def str_B_def str_C_def Let_def)

text \<open>
  C5, amended: when the posts are not empty, have no title twice, and already stand in
  the order \<^verbatim>\<open>sortPosts\<close> gives them for the direction the page remembers (as they do
  after any earlier call of \<^verbatim>\<open>sortAndRenderPosts\<close>), two calls of
  \<^verbatim>\<open>sortAndRenderPosts\<close> give back that order and that direction.
\<close>

theorem sort_twice_round_trip:
  assumes "posts pg \<noteq> []"
    and "distinct (map title (posts pg))"
    and "sortDirection pg = Some d"
    and "d = ''asc'' \<or> d = ''desc''"
    and "posts pg = sortPosts (posts pg) d"
  shows "posts (sortAndRenderPosts net (sortAndRenderPosts net pg)) = posts pg
       \<and> sortDirection (sortAndRenderPosts net (sortAndRenderPosts net pg)) = sortDirection pg"
proof -
  let ?d1 = "if d = ''asc'' then ''desc'' else ''asc''"
  let ?p1 = "sortPosts (posts pg) ?d1"
  have ne: "?p1 \<noteq> []"
    using assms(1) mset_array_sort [of sortPosts_compare "posts pg"]
    by (auto simp: sortPosts_def Let_def)
  have one: "posts (sortAndRenderPosts net pg) = ?p1"
    "sortDirection (sortAndRenderPosts net pg) = Some ?d1"
    using assms(1,3) by (simp_all add: sortAndRenderPosts_def render_def Let_def)
  have toggled: "(if ?d1 = ''asc'' then ''desc'' else ''asc'') = d"
    using assms(4) by auto
  have two: "posts (sortAndRenderPosts net (sortAndRenderPosts net pg)) = sortPosts ?p1 d"
    "sortDirection (sortAndRenderPosts net (sortAndRenderPosts net pg)) = Some d"
    using ne one toggled
    by (simp_all add: sortAndRenderPosts_def [of net "sortAndRenderPosts net pg"] render_def Let_def)
  have "sortPosts ?p1 d = posts pg"
    using assms(2,4,5) by (rule sortPosts_toggle_twice)
  with two assms(3) show ?thesis by simp
qed

theorem sort_twice_round_trip_witness:
  "distinct (map title [titled str_C, titled str_B, titled str_A])
   \<and> [titled str_C, titled str_B, titled str_A] =
       sortPosts [titled str_C, titled str_B, titled str_A] ''asc''
   \<and> posts (sortAndRenderPosts offline (sortAndRenderPosts offline
        \<lparr>posts = [titled str_C, titled str_B, titled str_A], sortDirection = Some ''asc'',
         view = [], trace = []\<rparr>))
       = [titled str_C, titled str_B, titled str_A]"
  using sort_twice_round_trip [of
      "\<lparr>posts = [titled str_C, titled str_B, titled str_A], sortDirection = Some ''asc'',
        view = [], trace = []\<rparr>" "''asc''" offline]
  by (simp add: sortPosts_def array_sort_def sortPosts_compare_def titled_def
      str_A_def str_B_def str_C_def)

text \<open>
  C9: in either direction (indeed for any direction string) the result of
  \<^verbatim>\<open>sortPosts\<close> holds exactly the records of its input, each as often as the input
  does: it is a permutation of the input.
\<close>

theorem sortPosts_permutation: "mset (sortPosts ps dir) = mset ps"
  by (simp add: sortPosts_def Let_def mset_array_sort)

text \<open>
  C10: the result of \<^verbatim>\<open>groupByUser\<close> holds exactly the records of its input, each as
  often as the input does: no record is added, dropped or repeated.
\<close>

theorem groupByUser_permutation: "mset (groupByUser ps) = mset ps"
proof -
  let ?K = "own_key_order (first_seen (map userId ps))"
  have d: "distinct ?K" by (simp add: distinct_own_key_order distinct_first_seen)
  have s: "set ?K = userId ` set ps" by (simp add: set_own_key_order set_first_seen)
  have "mset (groupByUser ps) = mset (filter (\<lambda>p. userId p \<in> set ?K) ps)"
    by (simp only: groupByUser_closed_form mset_groups [OF d])
  also have "\<dots> = mset ps" by (simp add: s)
  finally show ?thesis .
qed

text \<open>
  C3: when \<^verbatim>\<open>fetch\<close> rejects, or the response does not parse as JSON,
  \<^verbatim>\<open>fetchAndRenderPosts\<close> logs the error, stores the empty list of posts and renders
  it, so that the view is empty; nothing else on the page changes. The operation has a
  page as its result in every case: the \<^verbatim>\<open>catch\<close> of \<^verbatim>\<open>fetchPosts\<close> turns both
  failures into the empty list, and no error value leaves it.
\<close>

theorem fetchAndRenderPosts_failure:
  assumes "net apiUrl = Inl err \<or> (\<exists>resp. net apiUrl = Inr resp \<and> json resp = Inl err)"
  shows "fetchAndRenderPosts net apiUrl pg =
           pg\<lparr>posts := [], view := [],
              trace := trace pg @ [Fetch apiUrl, ConsoleLog err, Render []]\<rparr>"
  using assms by (auto simp: fetchAndRenderPosts_def fetchPosts_def render_def Let_def)

theorem fetchAndRenderPosts_failure_witness:
  "fetchAndRenderPosts offline (Some ''/posts'') initial_page =
     \<lparr>posts = [], sortDirection = None, view = [],
      trace = [Fetch (Some ''/posts''), ConsoleLog TypeError, Render []]\<rparr>
   \<and> fetchAndRenderPosts (\<lambda>a. Inr (Response (Inl SyntaxError))) None
        \<lparr>posts = [titled str_A], sortDirection = Some ''asc'', view = [], trace = []\<rparr> =
     \<lparr>posts = [], sortDirection = Some ''asc'', view = [],
      trace = [Fetch None, ConsoleLog SyntaxError, Render []]\<rparr>"
  using fetchAndRenderPosts_failure [of offline "Some ''/posts''" TypeError initial_page]
    fetchAndRenderPosts_failure [of "\<lambda>a. Inr (Response (Inl SyntaxError))" None SyntaxError
      "\<lparr>posts = [titled str_A], sortDirection = Some ''asc'', view = [], trace = []\<rparr>"]
  by (simp add: offline_def initial_page_def)

text \<open>
  C6: an empty list of posts makes \<^verbatim>\<open>sortAndRenderPosts\<close> and
  \<^verbatim>\<open>groupAndRenderPosts\<close> fetch before they sort or group, but the call is
  \<^verbatim>\<open>fetchPosts()\<close>, without the URL. After \<^verbatim>\<open>fetchAndRenderPosts("/posts")\<close> has
  stored the empty array that endpoint answered, the fetch of the next sort and of the
  next group is made with \<^verbatim>\<open>undefined\<close>, not with \<^verbatim>\<open>"/posts"\<close>; on a network that
  serves only \<^verbatim>\<open>"/posts"\<close> it is rejected and logged.
\<close>

theorem implicit_fetch_drops_endpoint:
  "fetch_args (trace (sortAndRenderPosts empty_endpoint
      (fetchAndRenderPosts empty_endpoint (Some ''/posts'') initial_page)))
   = [Some ''/posts'', None]
   \<and> fetch_args (trace (groupAndRenderPosts empty_endpoint
      (fetchAndRenderPosts empty_endpoint (Some ''/posts'') initial_page)))
   = [Some ''/posts'', None]
   \<and> trace (sortAndRenderPosts empty_endpoint
      (fetchAndRenderPosts empty_endpoint (Some ''/posts'') initial_page))
   = [Fetch (Some ''/posts''), Render [], Fetch None, ConsoleLog TypeError, Render []]"
  by (simp add: sortAndRenderPosts_def groupAndRenderPosts_def fetchAndRenderPosts_def
      fetchPosts_def render_def empty_endpoint_def initial_page_def Let_def
      sortPosts_def array_sort_def groupByUser_def Object_values_def)

section \<open>Properties of page 2\<close>

subsection \<open>One control entry\<close>

lemma play_click_enabled:
  "\<not> playButton_disabled c \<Longrightarrow>
   play_click (ctx, c) =
     Inr (ctx @ [\<lparr>buffer = Some (audioBuffer c), connected = True, started = True, stopped = False\<rparr>],
          c\<lparr>playButton_disabled := True, stopButton_disabled := False,
            sourceNode := Some (length ctx)\<rparr>)"
  by (simp add: play_click_def playAudio_def createBufferSource_def set_buffer_def connect_def
      start_def)

lemma play_click_disabled: "playButton_disabled c \<Longrightarrow> play_click (ctx, c) = Inr (ctx, c)"
  by (simp add: play_click_def)

lemma stop_click_disabled: "stopButton_disabled c \<Longrightarrow> stop_click (ctx, c) = Inr (ctx, c)"
  by (simp add: stop_click_def)

lemma stop_click_enabled:
  "\<not> stopButton_disabled c \<Longrightarrow> handle_ok (ctx, c) \<Longrightarrow>
   stop_click (ctx, c) =
     Inr (case sourceNode c of None \<Rightarrow> ctx | Some n \<Rightarrow> ctx[n := (ctx ! n)\<lparr>stopped := True\<rparr>],
          c\<lparr>playButton_disabled := False, stopButton_disabled := True\<rparr>)"
  by (auto simp: stop_click_def stopAudio_def stop_def handle_ok_def split: option.splits)

lemma play_click_inv:
  "handle_ok s \<Longrightarrow> one_enabled s \<Longrightarrow>
   \<exists>s'. play_click s = Inr s' \<and> handle_ok s' \<and> one_enabled s'"
proof (cases s)
  case (Pair ctx c)
  assume "handle_ok s" "one_enabled s"
  then show ?thesis unfolding Pair
    by (cases "playButton_disabled c")
       (simp_all add: play_click_enabled play_click_disabled handle_ok_def one_enabled_def)
qed

lemma stop_click_inv:
  "handle_ok s \<Longrightarrow> one_enabled s \<Longrightarrow>
   \<exists>s'. stop_click s = Inr s' \<and> handle_ok s' \<and> one_enabled s'"
proof (cases s)
  case (Pair ctx c)
  assume h: "handle_ok s" "one_enabled s"
  show ?thesis
  proof (cases "stopButton_disabled c")
    case True
    with h show ?thesis unfolding Pair by (simp add: stop_click_disabled)
  next
    case False
    with h show ?thesis unfolding Pair
      by (auto simp: stop_click_enabled handle_ok_def one_enabled_def nth_list_update
          split: option.splits)
  qed
qed

lemma clicks_inv:
  "handle_ok s \<Longrightarrow> one_enabled s \<Longrightarrow>
   \<exists>s'. clicks cs s = Inr s' \<and> handle_ok s' \<and> one_enabled s'"
proof (induction cs arbitrary: s)
  case Nil
  then show ?case by simp
next
  case (Cons a cs)
  show ?case
  proof (cases a)
    case Play
    from play_click_inv [OF Cons.prems] obtain s1
      where "play_click s = Inr s1" "handle_ok s1" "one_enabled s1" by blast
    with Cons.IH [of s1] show ?thesis by (simp add: Play)
  next
    case Stop
    from stop_click_inv [OF Cons.prems] obtain s1
      where "stop_click s = Inr s1" "handle_ok s1" "one_enabled s1" by blast
    with Cons.IH [of s1] show ?thesis by (simp add: Stop)
  qed
qed

lemma initial_inv:
  "handle_ok (ctx0, createAudioControls url buf)" "one_enabled (ctx0, createAudioControls url buf)"
  by (simp_all add: handle_ok_def one_enabled_def createAudioControls_def)

subsection \<open>Loading\<close>

lemma loadAudioFile_any_page:
  "loadAudioFile env url pg =
     (loaded_buffer env url,
      pg\<lparr>history := history pg @ history (snd (loadAudioFile env url empty_audio_page))\<rparr>)"
  by (simp add: loaded_buffer_def loadAudioFile_def empty_audio_page_def Let_def
      split: sum.splits)

lemma load_one_any_page:
  "load_one env url pg =
     pg\<lparr>audioControls := audioControls pg @ entry_for env url,
        history := history pg @ events_of env url\<rparr>"
proof -
  define h0 where "h0 = history (snd (loadAudioFile env url empty_audio_page))"
  have run: "loadAudioFile env url pg' =
      (loaded_buffer env url, pg'\<lparr>history := history pg' @ h0\<rparr>)" for pg'
    unfolding h0_def by (rule loadAudioFile_any_page)
  show ?thesis
    by (cases "loaded_buffer env url")
       (simp_all add: load_one_def events_of_def entry_for_def run empty_audio_page_def)
qed

lemma load_all_any_page:
  "load_all env urls pg =
     pg\<lparr>audioControls := audioControls pg @ concat (map (entry_for env) urls),
        history := history pg @ concat (map (events_of env) urls)\<rparr>"
proof (induction urls arbitrary: pg)
  case Nil
  show ?case by simp
next
  case (Cons url urls)
  show ?case by (simp add: Cons.IH load_one_any_page)
qed

lemma events_of_shape:
  "(\<exists>between e. events_of env url = FetchAudio url # between @ [ConsoleError e]
        \<and> loaded_buffer env url = None)
   \<or> (\<exists>bs buf. events_of env url = [FetchAudio url, ReadBytes url, Decode bs, AppendControl url]
        \<and> loaded_buffer env url = Some buf)"
proof (cases "fetch_audio env url")
  case (Inl e)
  then have "events_of env url = FetchAudio url # [] @ [ConsoleError e]"
    "loaded_buffer env url = None"
    by (simp_all add: events_of_def loaded_buffer_def load_one_def loadAudioFile_def
        empty_audio_page_def)
  then show ?thesis by blast
next
  case (Inr resp)
  note f = this
  show ?thesis
  proof (cases "arrayBuffer resp")
    case (Inl e)
    with f have "events_of env url = FetchAudio url # [ReadBytes url] @ [ConsoleError e]"
      "loaded_buffer env url = None"
      by (simp_all add: events_of_def loaded_buffer_def load_one_def loadAudioFile_def
          empty_audio_page_def)
    then show ?thesis by blast
  next
    case (Inr bs)
    note a = this
    show ?thesis
    proof (cases "decodeAudioData env bs")
      case (Inl e)
      with f a have "events_of env url = FetchAudio url # [ReadBytes url, Decode bs] @ [ConsoleError e]"
        "loaded_buffer env url = None"
        by (simp_all add: events_of_def loaded_buffer_def load_one_def loadAudioFile_def
            empty_audio_page_def)
      then show ?thesis by blast
    next
      case (Inr buf)
      with f a have "events_of env url = [FetchAudio url, ReadBytes url, Decode bs, AppendControl url]"
        "loaded_buffer env url = Some buf"
        by (simp_all add: events_of_def loaded_buffer_def load_one_def loadAudioFile_def
            empty_audio_page_def)
      then show ?thesis by blast
    qed
  qed
qed

subsection \<open>The entries of a panel on their shared context\<close>

lemma handle_ok_mono:
  assumes "handle_ok (ctx, c)" and "length ctx \<le> length ctx'"
    and "\<And>m. m < length ctx \<Longrightarrow> started (ctx ! m) \<Longrightarrow> started (ctx' ! m)"
  shows "handle_ok (ctx', c)"
  using assms by (auto simp: handle_ok_def split: option.splits)

lemma panel_ok_nth:
  "panel_ok pg \<Longrightarrow> i < length (audioControls pg) \<Longrightarrow>
   playButton_disabled (audioControls pg ! i) = (\<not> stopButton_disabled (audioControls pg ! i))
   \<and> handle_ok (audioContext pg, audioControls pg ! i)"
  by (simp add: panel_ok_def list_all_length)

lemma panel_ok_update:
  assumes ok: "panel_ok pg" and i: "i < length (audioControls pg)"
    and len: "length (audioContext pg) \<le> length ctx"
    and keep: "\<And>m. m < length (audioContext pg) \<Longrightarrow> started (audioContext pg ! m) \<Longrightarrow> started (ctx ! m)"
    and c: "playButton_disabled c = (\<not> stopButton_disabled c)" "handle_ok (ctx, c)"
  shows "panel_ok (pg\<lparr>audioContext := ctx, audioControls := (audioControls pg)[i := c]\<rparr>)"
proof -
  have "playButton_disabled ((audioControls pg)[i := c] ! j)
          = (\<not> stopButton_disabled ((audioControls pg)[i := c] ! j))
        \<and> handle_ok (ctx, (audioControls pg)[i := c] ! j)"
    if j: "j < length (audioControls pg)" for j
  proof (cases "j = i")
    case True
    with i c show ?thesis by simp
  next
    case False
    from panel_ok_nth [OF ok j]
    have "playButton_disabled (audioControls pg ! j) = (\<not> stopButton_disabled (audioControls pg ! j))"
      "handle_ok (audioContext pg, audioControls pg ! j)" by simp_all
    moreover from this(2) have "handle_ok (ctx, audioControls pg ! j)"
      using len keep by (rule handle_ok_mono)
    ultimately show ?thesis using False by simp
  qed
  then show ?thesis by (simp add: panel_ok_def list_all_length)
qed

lemma click_entry_inv:
  assumes ok: "panel_ok pg"
  shows "\<exists>pg'. click_entry i k pg = Inr pg' \<and> panel_ok pg'
           \<and> length (audioControls pg') = length (audioControls pg)"
proof (cases "i < length (audioControls pg)")
  case False
  with ok show ?thesis by (simp add: click_entry_def)
next
  case True
  let ?ctx = "audioContext pg"
  let ?c = "audioControls pg ! i"
  from panel_ok_nth [OF ok True]
  have one: "playButton_disabled ?c = (\<not> stopButton_disabled ?c)"
    and h: "handle_ok (?ctx, ?c)" by simp_all
  have same: "pg\<lparr>audioContext := ?ctx, audioControls := (audioControls pg)[i := ?c]\<rparr> = pg"
    by simp
  show ?thesis
  proof (cases k)
    case Play
    show ?thesis
    proof (cases "playButton_disabled ?c")
      case True
      then show ?thesis using \<open>i < length (audioControls pg)\<close> ok Play same
        by (simp add: click_entry_def play_click_disabled)
    next
      case False
      let ?ctx' = "?ctx @ [\<lparr>buffer = Some (audioBuffer ?c), connected = True,
                       started = True, stopped = False\<rparr>]"
      let ?c' = "?c\<lparr>playButton_disabled := True, stopButton_disabled := False,
                 sourceNode := Some (length ?ctx)\<rparr>"
      have "panel_ok (pg\<lparr>audioContext := ?ctx', audioControls := (audioControls pg)[i := ?c']\<rparr>)"
      proof (rule panel_ok_update [OF ok True])
        show "length ?ctx \<le> length ?ctx'" by simp
        show "started (?ctx' ! m)" if "m < length ?ctx" "started (?ctx ! m)" for m
          using that by (simp add: nth_append)
        show "playButton_disabled ?c' = (\<not> stopButton_disabled ?c')" by simp
        show "handle_ok (?ctx', ?c')" by (simp add: handle_ok_def)
      qed
      then show ?thesis using False True Play
        by (simp add: click_entry_def play_click_enabled)
    qed
  next
    case Stop
    show ?thesis
    proof (cases "stopButton_disabled ?c")
      case True
      then show ?thesis using \<open>i < length (audioControls pg)\<close> ok Stop same
        by (simp add: click_entry_def stop_click_disabled)
    next
      case False
      let ?ctx' = "case sourceNode ?c of None \<Rightarrow> ?ctx
                   | Some n \<Rightarrow> ?ctx[n := (?ctx ! n)\<lparr>stopped := True\<rparr>]"
      let ?c' = "?c\<lparr>playButton_disabled := False, stopButton_disabled := True\<rparr>"
      have "panel_ok (pg\<lparr>audioContext := ?ctx', audioControls := (audioControls pg)[i := ?c']\<rparr>)"
      proof (rule panel_ok_update [OF ok True])
        show "length ?ctx \<le> length ?ctx'" by (simp split: option.splits)
        show "started (?ctx' ! m)" if "m < length ?ctx" "started (?ctx ! m)" for m
          using that h by (auto simp: nth_list_update handle_ok_def split: option.splits)
        show "playButton_disabled ?c' = (\<not> stopButton_disabled ?c')" by simp
        show "handle_ok (?ctx', ?c')"
          using h by (auto simp: handle_ok_def nth_list_update split: option.splits)
      qed
      then show ?thesis using False True Stop h
        by (simp add: click_entry_def stop_click_enabled)
    qed
  qed
qed

lemma panel_clicks_inv:
  "panel_ok pg \<Longrightarrow>
   \<exists>pg'. panel_clicks acts pg = Inr pg' \<and> panel_ok pg'
        \<and> length (audioControls pg') = length (audioControls pg)"
proof (induction acts arbitrary: pg)
  case Nil
  then show ?case by simp
next
  case (Cons a acts)
  obtain i k where a: "a = (i, k)" by (cases a)
  from click_entry_inv [OF Cons.prems, of i k] obtain pg1
    where 1: "click_entry i k pg = Inr pg1" "panel_ok pg1"
      "length (audioControls pg1) = length (audioControls pg)" by blast
  from Cons.IH [OF 1(2)] obtain pg' where "panel_clicks acts pg1 = Inr pg'" "panel_ok pg'"
      "length (audioControls pg') = length (audioControls pg1)" by blast
  with 1 a show ?case by simp
qed

lemma fresh_panel_ok:
  "list_all (\<lambda>c. c = createAudioControls (fileName c) (audioBuffer c)) (audioControls pg)
   \<Longrightarrow> panel_ok pg"
proof -
  have "playButton_disabled c = (\<not> stopButton_disabled c) \<and> handle_ok (ctx, c)"
    if "c = createAudioControls (fileName c) (audioBuffer c)" for c ctx
  proof -
    have "playButton_disabled (createAudioControls (fileName c) (audioBuffer c))
            = (\<not> stopButton_disabled (createAudioControls (fileName c) (audioBuffer c)))
          \<and> handle_ok (ctx, createAudioControls (fileName c) (audioBuffer c))"
      by (simp add: createAudioControls_def handle_ok_def)
    with that show ?thesis by simp
  qed
  then show "list_all (\<lambda>c. c = createAudioControls (fileName c) (audioBuffer c)) (audioControls pg)
   \<Longrightarrow> panel_ok pg"
    by (auto simp: panel_ok_def list_all_iff)
qed

lemma loaded_panel_fresh:
  "list_all (\<lambda>c. c = createAudioControls (fileName c) (audioBuffer c))
     (audioControls (on_DOMContentLoaded env))"
proof -
  have "list_all (\<lambda>c. c = createAudioControls (fileName c) (audioBuffer c))
     (concat (map (entry_for env) urls))" for urls
    by (induction urls) (auto simp: entry_for_def createAudioControls_def split: option.splits)
  then show ?thesis
    by (simp add: on_DOMContentLoaded_def load_all_any_page empty_audio_page_def)
qed

subsection \<open>One URL against the environment\<close>

lemma item_fetch_rejected:
  "fetch_audio env url = Inl e \<Longrightarrow>
   events_of env url = [FetchAudio url, ConsoleError e] \<and> entry_for env url = []"
  by (simp add: events_of_def entry_for_def loaded_buffer_def load_one_def loadAudioFile_def
      empty_audio_page_def)

lemma item_body_unreadable:
  "fetch_audio env url = Inr resp \<Longrightarrow> arrayBuffer resp = Inl e \<Longrightarrow>
   events_of env url = [FetchAudio url, ReadBytes url, ConsoleError e] \<and> entry_for env url = []"
  by (simp add: events_of_def entry_for_def loaded_buffer_def load_one_def loadAudioFile_def
      empty_audio_page_def)

lemma item_decode_fails:
  "fetch_audio env url = Inr resp \<Longrightarrow> arrayBuffer resp = Inr bs \<Longrightarrow>
   decodeAudioData env bs = Inl e \<Longrightarrow>
   events_of env url = [FetchAudio url, ReadBytes url, Decode bs, ConsoleError e]
   \<and> entry_for env url = []"
  by (simp add: events_of_def entry_for_def loaded_buffer_def load_one_def loadAudioFile_def
      empty_audio_page_def)

lemma item_decodes:
  "fetch_audio env url = Inr resp \<Longrightarrow> arrayBuffer resp = Inr bs \<Longrightarrow>
   decodeAudioData env bs = Inr buf \<Longrightarrow>
   events_of env url = [FetchAudio url, ReadBytes url, Decode bs, AppendControl url]
   \<and> entry_for env url = [createAudioControls url buf]"
  by (simp add: events_of_def entry_for_def loaded_buffer_def load_one_def loadAudioFile_def
      empty_audio_page_def)

subsection \<open>The claims about page 2\<close>

text \<open>
  C4: a control entry starts with Play enabled, Stop disabled and no node. Whatever is
  clicked, no click raises an exception and exactly one of the two buttons stays enabled.
  A click on Play while Play is enabled creates one node that the context did not have
  before, gives it the buffer, connects and starts it, leaves every older node as it was,
  disables Play and enables Stop; while Play is disabled the click changes nothing. A
  click on Stop while Stop is enabled enables Play and disables Stop; while Stop is
  disabled it changes nothing. So a second click on Play with no Stop between has no
  effect. All this holds for every entry of a panel whose entries share one context,
  whatever has been clicked on the other entries: every sequence of clicks on a panel of
  new entries, and on the panel the page builds when it loads, runs without an exception
  and leaves every entry with exactly one button enabled and with a node, if it has
  one, that has been started; and in every state so reached a click on an enabled Stop
  stops the node of that entry and switches the buttons of that entry only.
\<close>

theorem control_entry_state_machine:
  "playButton_disabled (createAudioControls url buf) = False
   \<and> stopButton_disabled (createAudioControls url buf) = True
   \<and> sourceNode (createAudioControls url buf) = None
   \<and> (\<exists>s. clicks cs (ctx0, createAudioControls url buf) = Inr s
           \<and> playButton_disabled (snd s) = (\<not> stopButton_disabled (snd s)))
   \<and> (\<not> playButton_disabled c \<longrightarrow>
        play_click (ctx, c) =
          Inr (ctx @ [\<lparr>buffer = Some (audioBuffer c), connected = True,
                       started = True, stopped = False\<rparr>],
               c\<lparr>playButton_disabled := True, stopButton_disabled := False,
                 sourceNode := Some (length ctx)\<rparr>))
   \<and> (playButton_disabled c \<longrightarrow> play_click (ctx, c) = Inr (ctx, c))
   \<and> (clicks cs (ctx0, createAudioControls url buf) = Inr (ctx, c) \<and> \<not> stopButton_disabled c \<longrightarrow>
        (\<exists>ctx'. stop_click (ctx, c) =
           Inr (ctx', c\<lparr>playButton_disabled := False, stopButton_disabled := True\<rparr>)))
   \<and> (stopButton_disabled c \<longrightarrow> stop_click (ctx, c) = Inr (ctx, c))
   \<and> (\<not> playButton_disabled c \<longrightarrow> clicks [Play, Play] (ctx, c) = clicks [Play] (ctx, c))
   \<and> (\<not> stopButton_disabled c \<and> handle_ok (ctx, c) \<longrightarrow>
        stop_click (ctx, c) =
          Inr (case sourceNode c of
                 None \<Rightarrow> ctx
               | Some n \<Rightarrow> ctx[n := (ctx ! n)\<lparr>stopped := True\<rparr>],
               c\<lparr>playButton_disabled := False, stopButton_disabled := True\<rparr>))
   \<and> (list_all (\<lambda>c. c = createAudioControls (fileName c) (audioBuffer c)) (audioControls pg0) \<longrightarrow>
        (\<exists>pg. panel_clicks acts pg0 = Inr pg
             \<and> length (audioControls pg) = length (audioControls pg0)
             \<and> list_all (\<lambda>c. playButton_disabled c = (\<not> stopButton_disabled c)
                              \<and> handle_ok (audioContext pg, c)) (audioControls pg)))
   \<and> (\<exists>pg. panel_clicks acts (on_DOMContentLoaded env) = Inr pg
           \<and> list_all (\<lambda>c. playButton_disabled c = (\<not> stopButton_disabled c)
                            \<and> handle_ok (audioContext pg, c)) (audioControls pg))
   \<and> (list_all (\<lambda>c. c = createAudioControls (fileName c) (audioBuffer c)) (audioControls pg0)
        \<and> panel_clicks acts pg0 = Inr pg1 \<and> i < length (audioControls pg1)
        \<and> \<not> stopButton_disabled (audioControls pg1 ! i) \<longrightarrow>
        click_entry i Stop pg1 =
          Inr (pg1\<lparr>audioContext :=
                     (case sourceNode (audioControls pg1 ! i) of
                        None \<Rightarrow> audioContext pg1
                      | Some n \<Rightarrow> (audioContext pg1)[n := (audioContext pg1 ! n)\<lparr>stopped := True\<rparr>]),
                   audioControls :=
                     (audioControls pg1)[i := (audioControls pg1 ! i)
                        \<lparr>playButton_disabled := False, stopButton_disabled := True\<rparr>]\<rparr>))
   \<and> (i < length (audioControls pg1) \<and> \<not> playButton_disabled (audioControls pg1 ! i) \<longrightarrow>
        click_entry i Play pg1 =
          Inr (pg1\<lparr>audioContext :=
                     audioContext pg1 @ [\<lparr>buffer = Some (audioBuffer (audioControls pg1 ! i)),
                        connected = True, started = True, stopped = False\<rparr>],
                   audioControls :=
                     (audioControls pg1)[i := (audioControls pg1 ! i)
                        \<lparr>playButton_disabled := True, stopButton_disabled := False,
                         sourceNode := Some (length (audioContext pg1))\<rparr>]\<rparr>))"
proof -
  have init: "playButton_disabled (createAudioControls url buf) = False"
    "stopButton_disabled (createAudioControls url buf) = True"
    "sourceNode (createAudioControls url buf) = None"
    by (simp_all add: createAudioControls_def)
  from clicks_inv [OF initial_inv, of cs ctx0 url buf]
  obtain s where s: "clicks cs (ctx0, createAudioControls url buf) = Inr s"
    "handle_ok s" "one_enabled s" by blast
  then have run: "\<exists>s. clicks cs (ctx0, createAudioControls url buf) = Inr s
           \<and> playButton_disabled (snd s) = (\<not> stopButton_disabled (snd s))"
    by (auto simp: one_enabled_def)
  have stop_ok: "\<exists>ctx'. stop_click (ctx, c) =
           Inr (ctx', c\<lparr>playButton_disabled := False, stopButton_disabled := True\<rparr>)"
    if "clicks cs (ctx0, createAudioControls url buf) = Inr (ctx, c)" "\<not> stopButton_disabled c"
  proof -
    from that(1) s have "handle_ok (ctx, c)" by simp
    with that(2) show ?thesis by (simp add: stop_click_enabled)
  qed
  have twice: "clicks [Play, Play] (ctx, c) = clicks [Play] (ctx, c)" if "\<not> playButton_disabled c"
    using that by (simp add: play_click_enabled play_click_disabled)
  have panel: "\<exists>pg. panel_clicks acts pg0 = Inr pg
             \<and> length (audioControls pg) = length (audioControls pg0)
             \<and> list_all (\<lambda>c. playButton_disabled c = (\<not> stopButton_disabled c)
                              \<and> handle_ok (audioContext pg, c)) (audioControls pg)"
    if "list_all (\<lambda>c. c = createAudioControls (fileName c) (audioBuffer c)) (audioControls pg0)"
    using panel_clicks_inv [OF fresh_panel_ok [OF that], of acts] by (auto simp: panel_ok_def)
  have loaded: "\<exists>pg. panel_clicks acts (on_DOMContentLoaded env) = Inr pg
           \<and> list_all (\<lambda>c. playButton_disabled c = (\<not> stopButton_disabled c)
                            \<and> handle_ok (audioContext pg, c)) (audioControls pg)"
    using panel_clicks_inv [OF fresh_panel_ok [OF loaded_panel_fresh], of acts env]
    by (auto simp: panel_ok_def)
  have panel_stop: "click_entry i Stop pg1 =
          Inr (pg1\<lparr>audioContext :=
                     (case sourceNode (audioControls pg1 ! i) of
                        None \<Rightarrow> audioContext pg1
                      | Some n \<Rightarrow> (audioContext pg1)[n := (audioContext pg1 ! n)\<lparr>stopped := True\<rparr>]),
                   audioControls :=
                     (audioControls pg1)[i := (audioControls pg1 ! i)
                        \<lparr>playButton_disabled := False, stopButton_disabled := True\<rparr>]\<rparr>)"
    if f: "list_all (\<lambda>c. c = createAudioControls (fileName c) (audioBuffer c)) (audioControls pg0)"
      and r: "panel_clicks acts pg0 = Inr pg1" and i: "i < length (audioControls pg1)"
      and en: "\<not> stopButton_disabled (audioControls pg1 ! i)"
  proof -
    from panel_clicks_inv [OF fresh_panel_ok [OF f], of acts] r have "panel_ok pg1" by simp
    from panel_ok_nth [OF this i] have "handle_ok (audioContext pg1, audioControls pg1 ! i)"
      by simp
    with i en show ?thesis by (simp add: click_entry_def stop_click_enabled)
  qed
  have panel_play: "click_entry i Play pg1 =
          Inr (pg1\<lparr>audioContext :=
                     audioContext pg1 @ [\<lparr>buffer = Some (audioBuffer (audioControls pg1 ! i)),
                        connected = True, started = True, stopped = False\<rparr>],
                   audioControls :=
                     (audioControls pg1)[i := (audioControls pg1 ! i)
                        \<lparr>playButton_disabled := True, stopButton_disabled := False,
                         sourceNode := Some (length (audioContext pg1))\<rparr>]\<rparr>)"
    if "i < length (audioControls pg1)" "\<not> playButton_disabled (audioControls pg1 ! i)"
    using that by (simp add: click_entry_def play_click_enabled)
  have stop_any: "stop_click (ctx, c) =
          Inr (case sourceNode c of
                 None \<Rightarrow> ctx
               | Some n \<Rightarrow> ctx[n := (ctx ! n)\<lparr>stopped := True\<rparr>],
               c\<lparr>playButton_disabled := False, stopButton_disabled := True\<rparr>)"
    if "\<not> stopButton_disabled c" "handle_ok (ctx, c)"
    using that by (rule stop_click_enabled)
  have play_en: "\<not> playButton_disabled c \<longrightarrow>
        play_click (ctx, c) =
          Inr (ctx @ [\<lparr>buffer = Some (audioBuffer c), connected = True,
                       started = True, stopped = False\<rparr>],
               c\<lparr>playButton_disabled := True, stopButton_disabled := False,
                 sourceNode := Some (length ctx)\<rparr>)"
    by (simp add: play_click_enabled)
  have play_dis: "playButton_disabled c \<longrightarrow> play_click (ctx, c) = Inr (ctx, c)"
    by (simp add: play_click_disabled)
  have stop_dis: "stopButton_disabled c \<longrightarrow> stop_click (ctx, c) = Inr (ctx, c)"
    by (simp add: stop_click_disabled)
  show ?thesis
    using init run stop_ok twice panel loaded panel_stop panel_play stop_any
      play_en play_dis stop_dis
    by blast
qed

theorem control_entry_state_machine_witness:
  "play_click ([], createAudioControls ''a.ogg'' (AudioBuffer 0)) =
     Inr ([node_of (AudioBuffer 0) False], playing ''a.ogg'' (AudioBuffer 0) 0)
   \<and> stop_click ([], createAudioControls ''a.ogg'' (AudioBuffer 0)) =
     Inr ([], createAudioControls ''a.ogg'' (AudioBuffer 0))
   \<and> play_click ([node_of (AudioBuffer 0) False], playing ''a.ogg'' (AudioBuffer 0) 0) =
     Inr ([node_of (AudioBuffer 0) False], playing ''a.ogg'' (AudioBuffer 0) 0)
   \<and> stop_click ([node_of (AudioBuffer 0) False], playing ''a.ogg'' (AudioBuffer 0) 0) =
     Inr ([node_of (AudioBuffer 0) True],
          (playing ''a.ogg'' (AudioBuffer 0) 0)
            \<lparr>playButton_disabled := False, stopButton_disabled := True\<rparr>)
   \<and> panel_clicks [(0, Play), (1, Play)] two_entries =
     Inr \<lparr>audioContext = [node_of (AudioBuffer 0) False, node_of (AudioBuffer 1) False],
          audioControls = [playing ''a.ogg'' (AudioBuffer 0) 0, playing ''b.ogg'' (AudioBuffer 1) 1],
          history = []\<rparr>
   \<and> click_entry 0 Stop
        \<lparr>audioContext = [node_of (AudioBuffer 0) False, node_of (AudioBuffer 1) False],
         audioControls = [playing ''a.ogg'' (AudioBuffer 0) 0, playing ''b.ogg'' (AudioBuffer 1) 1],
         history = []\<rparr> =
     Inr \<lparr>audioContext = [node_of (AudioBuffer 0) True, node_of (AudioBuffer 1) False],
          audioControls =
            [(playing ''a.ogg'' (AudioBuffer 0) 0)
               \<lparr>playButton_disabled := False, stopButton_disabled := True\<rparr>,
             playing ''b.ogg'' (AudioBuffer 1) 1],
          history = []\<rparr>"
  using control_entry_state_machine [where url = "''a.ogg''" and buf = "AudioBuffer 0"
      and cs = "[]" and ?ctx0.0 = "[]" and c = "createAudioControls ''a.ogg'' (AudioBuffer 0)"
      and ctx = "[]" and ?pg0.0 = two_entries and acts = "[]" and env = second_fails
      and i = 0 and ?pg1.0 = two_entries]
    control_entry_state_machine [where url = "''a.ogg''" and buf = "AudioBuffer 0"
      and cs = "[Play]" and ?ctx0.0 = "[]" and c = "playing ''a.ogg'' (AudioBuffer 0) 0"
      and ctx = "[node_of (AudioBuffer 0) False]" and ?pg0.0 = two_entries
      and acts = "[(0, Play), (1, Play)]" and env = second_fails and i = 0
      and ?pg1.0 = "\<lparr>audioContext = [node_of (AudioBuffer 0) False, node_of (AudioBuffer 1) False],
         audioControls = [playing ''a.ogg'' (AudioBuffer 0) 0, playing ''b.ogg'' (AudioBuffer 1) 1],
         history = []\<rparr>"]
  by (simp add: two_entries_def playing_def node_of_def createAudioControls_def click_entry_def
      play_click_def playAudio_def createBufferSource_def set_buffer_def connect_def start_def
      stop_click_def stopAudio_def stop_def)

text \<open>
  C7: after Play and then Stop on a new entry the node has been stopped, Play is enabled
  and Stop is disabled, but the variable \<^verbatim>\<open>sourceNode\<close> of the entry still refers to
  the stopped node: the listener drops the \<^verbatim>\<open>null\<close> that \<^verbatim>\<open>stopAudio\<close> returns.
\<close>

theorem stop_keeps_sourceNode:
  "clicks [Play, Stop] ([], createAudioControls ''a.ogg'' (AudioBuffer 0)) =
     Inr ([\<lparr>buffer = Some (AudioBuffer 0), connected = True, started = True, stopped = True\<rparr>],
          \<lparr>fileName = ''a.ogg'', audioBuffer = AudioBuffer 0, playButton_disabled = False,
           stopButton_disabled = True, sourceNode = Some 0\<rparr>)"
  by (simp add: createAudioControls_def play_click_def playAudio_def createBufferSource_def
      set_buffer_def connect_def start_def stop_click_def stopAudio_def stop_def)

text \<open>
  C8: the loop takes the URLs one after the other. The events of the whole run are the
  events of the first URL, then those of the second, and so on; those of one URL begin
  with its fetch and end either with the logged error, and then the URL adds no entry,
  or with the appending of its entry after the fetch, the reading and the decoding. The
  panel holds the entries of the URLs that load, in the order of the list. What a URL
  does is fixed by what the environment answers: a rejected fetch, a body that cannot be
  read and bytes that \<^verbatim>\<open>decodeAudioData\<close> rejects each end in the logged error and
  add no entry; bytes that decode to a buffer add the entry made of the URL and that
  buffer. Of three URLs that are all fetched and read, and of which the second does not
  decode and the others do, the panel holds the entry of the first and then that of the
  third, and the second is fetched, read and rejected between the appending of the first
  and the fetch of the third.
\<close>

theorem panel_in_source_order:
  "audioControls (load_all env urls pg) = audioControls pg @ concat (map (entry_for env) urls)
   \<and> history (load_all env urls pg) = history pg @ concat (map (events_of env) urls)
   \<and> audioControls (on_DOMContentLoaded env) = concat (map (entry_for env) audioFiles)
   \<and> history (on_DOMContentLoaded env) = concat (map (events_of env) audioFiles)
   \<and> ((\<exists>between e. events_of env url = FetchAudio url # between @ [ConsoleError e]
          \<and> entry_for env url = [])
      \<or> (\<exists>bs buf. events_of env url = [FetchAudio url, ReadBytes url, Decode bs, AppendControl url]
          \<and> entry_for env url = [createAudioControls url buf]))
   \<and> (loaded_buffer env u1 = Some b1 \<and> loaded_buffer env u2 = None \<and> loaded_buffer env u3 = Some b3
        \<longrightarrow> audioControls (load_all env [u1, u2, u3] empty_audio_page) =
              [createAudioControls u1 b1, createAudioControls u3 b3])
   \<and> (fetch_audio env url = Inl e \<longrightarrow>
        events_of env url = [FetchAudio url, ConsoleError e] \<and> entry_for env url = [])
   \<and> (fetch_audio env url = Inr resp \<and> arrayBuffer resp = Inl e \<longrightarrow>
        events_of env url = [FetchAudio url, ReadBytes url, ConsoleError e]
        \<and> entry_for env url = [])
   \<and> (fetch_audio env url = Inr resp \<and> arrayBuffer resp = Inr bs
        \<and> decodeAudioData env bs = Inl e \<longrightarrow>
        events_of env url = [FetchAudio url, ReadBytes url, Decode bs, ConsoleError e]
        \<and> entry_for env url = [])
   \<and> (fetch_audio env url = Inr resp \<and> arrayBuffer resp = Inr bs
        \<and> decodeAudioData env bs = Inr buf \<longrightarrow>
        events_of env url = [FetchAudio url, ReadBytes url, Decode bs, AppendControl url]
        \<and> entry_for env url = [createAudioControls url buf])
   \<and> (fetch_audio env u1 = Inr r1 \<and> arrayBuffer r1 = Inr bs1 \<and> decodeAudioData env bs1 = Inr b1
        \<and> fetch_audio env u2 = Inr r2 \<and> arrayBuffer r2 = Inr bs2 \<and> decodeAudioData env bs2 = Inl e2
        \<and> fetch_audio env u3 = Inr r3 \<and> arrayBuffer r3 = Inr bs3 \<and> decodeAudioData env bs3 = Inr b3
        \<longrightarrow> audioControls (load_all env [u1, u2, u3] empty_audio_page) =
              [createAudioControls u1 b1, createAudioControls u3 b3]
            \<and> history (load_all env [u1, u2, u3] empty_audio_page) =
              [FetchAudio u1, ReadBytes u1, Decode bs1, AppendControl u1,
               FetchAudio u2, ReadBytes u2, Decode bs2, ConsoleError e2,
               FetchAudio u3, ReadBytes u3, Decode bs3, AppendControl u3])"
proof -
  have shape: "(\<exists>between e. events_of env url = FetchAudio url # between @ [ConsoleError e]
          \<and> entry_for env url = [])
      \<or> (\<exists>bs buf. events_of env url = [FetchAudio url, ReadBytes url, Decode bs, AppendControl url]
          \<and> entry_for env url = [createAudioControls url buf])"
    using events_of_shape [of env url] by (auto simp: entry_for_def)
  have old: "audioControls (load_all env urls pg) = audioControls pg @ concat (map (entry_for env) urls)
   \<and> history (load_all env urls pg) = history pg @ concat (map (events_of env) urls)
   \<and> audioControls (on_DOMContentLoaded env) = concat (map (entry_for env) audioFiles)
   \<and> history (on_DOMContentLoaded env) = concat (map (events_of env) audioFiles)
   \<and> (loaded_buffer env u1 = Some b1 \<and> loaded_buffer env u2 = None \<and> loaded_buffer env u3 = Some b3
        \<longrightarrow> audioControls (load_all env [u1, u2, u3] empty_audio_page) =
              [createAudioControls u1 b1, createAudioControls u3 b3])"
    by (simp add: load_all_any_page on_DOMContentLoaded_def empty_audio_page_def entry_for_def)
  have three: "audioControls (load_all env [u1, u2, u3] empty_audio_page) =
              [createAudioControls u1 b1, createAudioControls u3 b3]
            \<and> history (load_all env [u1, u2, u3] empty_audio_page) =
              [FetchAudio u1, ReadBytes u1, Decode bs1, AppendControl u1,
               FetchAudio u2, ReadBytes u2, Decode bs2, ConsoleError e2,
               FetchAudio u3, ReadBytes u3, Decode bs3, AppendControl u3]"
    if "fetch_audio env u1 = Inr r1" "arrayBuffer r1 = Inr bs1" "decodeAudioData env bs1 = Inr b1"
       "fetch_audio env u2 = Inr r2" "arrayBuffer r2 = Inr bs2" "decodeAudioData env bs2 = Inl e2"
       "fetch_audio env u3 = Inr r3" "arrayBuffer r3 = Inr bs3" "decodeAudioData env bs3 = Inr b3"
    using item_decodes [OF that(1,2,3)] item_decode_fails [OF that(4,5,6)]
      item_decodes [OF that(7,8,9)]
    by (simp add: load_all_any_page empty_audio_page_def)
  show ?thesis
    using shape old three item_fetch_rejected [of env url e]
      item_body_unreadable [of env url resp e] item_decode_fails [of env url resp bs e]
      item_decodes [of env url resp bs buf]
    by blast
qed

theorem panel_in_source_order_witness:
  "audioControls (on_DOMContentLoaded second_fails) =
     [createAudioControls (audioFiles ! 0) (AudioBuffer 1),
      createAudioControls (audioFiles ! 2) (AudioBuffer 1)]
   \<and> history (on_DOMContentLoaded second_fails) =
     [FetchAudio (audioFiles ! 0), ReadBytes (audioFiles ! 0), Decode [1],
      AppendControl (audioFiles ! 0),
      FetchAudio (audioFiles ! 1), ReadBytes (audioFiles ! 1), Decode [],
      ConsoleError EncodingError,
      FetchAudio (audioFiles ! 2), ReadBytes (audioFiles ! 2), Decode [1],
      AppendControl (audioFiles ! 2)]
   \<and> loaded_buffer second_fails (audioFiles ! 1) = None
   \<and> events_of three_failures ''gone.ogg'' = [FetchAudio ''gone.ogg'', ConsoleError TypeError]
   \<and> entry_for three_failures ''gone.ogg'' = []
   \<and> events_of three_failures ''cut.ogg'' =
       [FetchAudio ''cut.ogg'', ReadBytes ''cut.ogg'', ConsoleError TypeError]
   \<and> entry_for three_failures ''cut.ogg'' = []
   \<and> events_of three_failures ''noise.ogg'' =
       [FetchAudio ''noise.ogg'', ReadBytes ''noise.ogg'', Decode [], ConsoleError EncodingError]
   \<and> entry_for three_failures ''noise.ogg'' = []"
proof -
  have env2: "fetch_audio second_fails (audioFiles ! 0) = Inr (AudioResponse (Inr [1]))"
    "fetch_audio second_fails (audioFiles ! 1) = Inr (AudioResponse (Inr []))"
    "fetch_audio second_fails (audioFiles ! 2) = Inr (AudioResponse (Inr [1]))"
    "decodeAudioData second_fails [1] = Inr (AudioBuffer 1)"
    "decodeAudioData second_fails [] = Inl EncodingError"
    by (simp_all add: second_fails_def audioFiles_def)
  have l: "loaded_buffer second_fails (audioFiles ! 0) = Some (AudioBuffer 1)"
    "loaded_buffer second_fails (audioFiles ! 1) = None"
    "loaded_buffer second_fails (audioFiles ! 2) = Some (AudioBuffer 1)"
    by (simp_all add: loaded_buffer_def loadAudioFile_def second_fails_def audioFiles_def
        empty_audio_page_def)
  have env3: "fetch_audio three_failures ''gone.ogg'' = Inl TypeError"
    "fetch_audio three_failures ''cut.ogg'' = Inr (AudioResponse (Inl TypeError))"
    "fetch_audio three_failures ''noise.ogg'' = Inr (AudioResponse (Inr []))"
    "decodeAudioData three_failures [] = Inl EncodingError"
    by (simp_all add: three_failures_def)
  have files: "audioFiles = [audioFiles ! 0, audioFiles ! 1, audioFiles ! 2]"
    by (simp add: audioFiles_def)
  have start: "on_DOMContentLoaded second_fails =
      load_all second_fails [audioFiles ! 0, audioFiles ! 1, audioFiles ! 2] empty_audio_page"
    unfolding on_DOMContentLoaded_def using files by simp
  have ab: "arrayBuffer (AudioResponse (Inr [1])) = Inr [1]"
    "arrayBuffer (AudioResponse (Inr [])) = Inr []"
    by simp_all
  from panel_in_source_order [where env = second_fails and urls = "[]" and pg = empty_audio_page
      and url = "audioFiles ! 0" and resp = "AudioResponse (Inr [1])" and bs = "[1]"
      and buf = "AudioBuffer 1" and e = TypeError
      and ?u1.0 = "audioFiles ! 0" and ?r1.0 = "AudioResponse (Inr [1])" and ?bs1.0 = "[1]"
      and ?b1.0 = "AudioBuffer 1"
      and ?u2.0 = "audioFiles ! 1" and ?r2.0 = "AudioResponse (Inr [])" and ?bs2.0 = "[]"
      and ?e2.0 = EncodingError
      and ?u3.0 = "audioFiles ! 2" and ?r3.0 = "AudioResponse (Inr [1])" and ?bs3.0 = "[1]"
      and ?b3.0 = "AudioBuffer 1"] env2 ab
  have "audioControls (load_all second_fails [audioFiles ! 0, audioFiles ! 1, audioFiles ! 2]
          empty_audio_page) =
     [createAudioControls (audioFiles ! 0) (AudioBuffer 1),
      createAudioControls (audioFiles ! 2) (AudioBuffer 1)]
   \<and> history (load_all second_fails [audioFiles ! 0, audioFiles ! 1, audioFiles ! 2]
          empty_audio_page) =
     [FetchAudio (audioFiles ! 0), ReadBytes (audioFiles ! 0), Decode [1],
      AppendControl (audioFiles ! 0),
      FetchAudio (audioFiles ! 1), ReadBytes (audioFiles ! 1), Decode [],
      ConsoleError EncodingError,
      FetchAudio (audioFiles ! 2), ReadBytes (audioFiles ! 2), Decode [1],
      AppendControl (audioFiles ! 2)]"
    by blast
  then have a: "audioControls (on_DOMContentLoaded second_fails) =
     [createAudioControls (audioFiles ! 0) (AudioBuffer 1),
      createAudioControls (audioFiles ! 2) (AudioBuffer 1)]
   \<and> history (on_DOMContentLoaded second_fails) =
     [FetchAudio (audioFiles ! 0), ReadBytes (audioFiles ! 0), Decode [1],
      AppendControl (audioFiles ! 0),
      FetchAudio (audioFiles ! 1), ReadBytes (audioFiles ! 1), Decode [],
      ConsoleError EncodingError,
      FetchAudio (audioFiles ! 2), ReadBytes (audioFiles ! 2), Decode [1],
      AppendControl (audioFiles ! 2)]"
    unfolding start .
  from panel_in_source_order [where env = three_failures and url = "''gone.ogg''"
      and e = TypeError]
  have b: "events_of three_failures ''gone.ogg'' = [FetchAudio ''gone.ogg'', ConsoleError TypeError]
   \<and> entry_for three_failures ''gone.ogg'' = []"
    using env3 by blast
  from panel_in_source_order [where env = three_failures and url = "''cut.ogg''"
      and resp = "AudioResponse (Inl TypeError)" and e = TypeError]
  have c: "events_of three_failures ''cut.ogg'' =
       [FetchAudio ''cut.ogg'', ReadBytes ''cut.ogg'', ConsoleError TypeError]
   \<and> entry_for three_failures ''cut.ogg'' = []"
    using env3 ab by (simp add: three_failures_def)
  from panel_in_source_order [where env = three_failures and url = "''noise.ogg''"
      and resp = "AudioResponse (Inr [])" and bs = "[]" and e = EncodingError]
  have d: "events_of three_failures ''noise.ogg'' =
       [FetchAudio ''noise.ogg'', ReadBytes ''noise.ogg'', Decode [], ConsoleError EncodingError]
   \<and> entry_for three_failures ''noise.ogg'' = []"
    using env3 by simp
  from a b c d l(2) show ?thesis by blast
qed

end
